theory Spec2Isabelle
  imports Main
begin

section \<open>Python strings\<close>

text \<open>
  A Python \<open>str\<close> is a sequence of Unicode code points, so a string is modelled as a list of
  natural numbers, one per code point. \<open>lit\<close> turns an (ASCII) literal of the source into
  such a list.
\<close>

type_synonym str = "nat list"

definition lit :: "string \<Rightarrow> str" where
  "lit s = map of_char s"

text \<open>
  \<open>str.isspace\<close> for one code point; \<open>str.strip()\<close> and the regular-expression class
  \<open>\s\<close> (on \<open>str\<close> patterns) both use this predicate: U+0009..U+000D, U+001C..U+0020,
  U+0085, U+00A0, U+1680, U+2000..U+200A, U+2028, U+2029, U+202F, U+205F, U+3000.
\<close>

definition isspace :: "nat \<Rightarrow> bool" where
  "isspace c \<longleftrightarrow>
     (9 \<le> c \<and> c \<le> 13) \<or> (28 \<le> c \<and> c \<le> 32) \<or> c = 133 \<or> c = 160 \<or> c = 5760 \<or>
     (8192 \<le> c \<and> c \<le> 8202) \<or> c = 8232 \<or> c = 8233 \<or> c = 8239 \<or> c = 8287 \<or> c = 12288"

text \<open>\<open>s.strip()\<close>: whitespace removed at both ends.\<close>

definition strip :: "str \<Rightarrow> str" where
  "strip s = rev (dropWhile isspace (rev (dropWhile isspace s)))"

text \<open>
  \<open>s.lower()\<close>. ASCII and Latin-1 capitals move down by 32 and the Kelvin sign U+212A
  becomes \<open>k\<close>; every other code point is left as it is. Python's full case table is not
  reproduced beyond U+00FF. The program only compares the lowered line with ASCII keys, and
  no code point other than the ASCII capitals and U+212A lowers to ASCII, so the comparison
  is the one of the program.
\<close>

definition lower_char :: "nat \<Rightarrow> nat" where
  "lower_char c =
     (if (65 \<le> c \<and> c \<le> 90) \<or> (192 \<le> c \<and> c \<le> 222 \<and> c \<noteq> 215) then c + 32
      else if c = 8490 then 107 else c)"

definition lower :: "str \<Rightarrow> str" where
  "lower s = map lower_char s"

text \<open>\<open>sep.join(xs)\<close>.\<close>

fun join :: "str \<Rightarrow> str list \<Rightarrow> str" where
  "join sep [] = []"
| "join sep [x] = x"
| "join sep (x # y # ys) = x @ sep @ join sep (y # ys)"

text \<open>
  Truthiness of an optional string: \<open>None\<close> and the empty string are false.
  \<open>x or d\<close> is \<open>or_else x d\<close>.
\<close>

fun truthy :: "str option \<Rightarrow> bool" where
  "truthy None = False"
| "truthy (Some s) = (s \<noteq> [])"

fun or_else :: "str option \<Rightarrow> str \<Rightarrow> str" where
  "or_else None d = d"
| "or_else (Some s) d = (if s = [] then d else s)"

text \<open>
  \<open>text.splitlines()\<close>: a line ends at LF, CR, CR LF, VT, FF, FS, GS, RS, NEL, LS or PS; the
  terminator is not part of the line, and a terminator at the very end opens no further line.
\<close>

definition is_linebreak :: "nat \<Rightarrow> bool" where
  "is_linebreak c \<longleftrightarrow>
     (10 \<le> c \<and> c \<le> 13) \<or> (28 \<le> c \<and> c \<le> 30) \<or> c = 133 \<or> c = 8232 \<or> c = 8233"

function splitlines :: "str \<Rightarrow> str list" where
  "splitlines [] = []"
| "splitlines (c # cs) =
     takeWhile (\<lambda>x. \<not> is_linebreak x) (c # cs) #
       (case dropWhile (\<lambda>x. \<not> is_linebreak x) (c # cs) of
          [] \<Rightarrow> []
        | b # rest \<Rightarrow>
            (case rest of
               [] \<Rightarrow> []
             | b' # rest' \<Rightarrow> if b = 13 \<and> b' = 10 then splitlines rest' else splitlines rest))"
  by pat_completeness auto
termination
proof (relation "measure length", goal_cases)
  case 1
  show ?case by simp
next
  case (2 c cs b rest b' rest')
  have "length (dropWhile (\<lambda>x. \<not> is_linebreak x) (c # cs)) \<le> length (c # cs)"
    by (rule length_dropWhile_le)
  with 2 show ?case by simp
next
  case (3 c cs b rest b' rest')
  have "length (dropWhile (\<lambda>x. \<not> is_linebreak x) (c # cs)) \<le> length (c # cs)"
    by (rule length_dropWhile_le)
  with 3 show ?case by simp
qed

section \<open>Data model\<close>

datatype os_error = FileNotFound | PermissionDenied | IsADirectory | BrokenPipe | OtherOSError

text \<open>
  What the file system or the standard output can raise: an \<open>OSError\<close> of some kind with
  its message (\<open>FileNotFoundError\<close>, \<open>PermissionError\<close>, \<open>IsADirectoryError\<close> and
  \<open>BrokenPipeError\<close> are subclasses of \<open>OSError\<close>), or a \<open>UnicodeError\<close> of the codec.
\<close>

datatype io_error = OSError os_error str | UnicodeError




text \<open>The exception that leaves a function of the program.\<close>

datatype exn =
    IOFailure io_error
  | KeyError str
  | SystemExit str

record ParsedSummary =
  quick_recap :: "str list"
  action_items :: "(str \<times> str) list"
  summary_topics :: "(str \<times> str) list"

definition SECTION_NAMES :: "(str \<times> str) list" where
  "SECTION_NAMES =
     [(lit ''quick recap'', lit ''quick recap''),
      (lit ''quick recap:'', lit ''quick recap''),
      (lit ''recap'', lit ''quick recap''),
      (lit ''recap:'', lit ''quick recap''),
      (lit ''next steps'', lit ''next steps''),
      (lit ''next steps:'', lit ''next steps''),
      (lit ''actions'', lit ''next steps''),
      (lit ''actions:'', lit ''next steps''),
      (lit ''summary'', lit ''summary''),
      (lit ''summary:'', lit ''summary'')]"

section \<open>Section splitter\<close>

definition normalise_line :: "str \<Rightarrow> str" where
  "normalise_line line = strip line"

type_synonym sections = "str \<rightharpoonup> str list"

definition initial_sections :: sections where
  "initial_sections =
     [lit ''quick recap'' \<mapsto> [], lit ''next steps'' \<mapsto> [], lit ''summary'' \<mapsto> []]"

text \<open>
  One iteration of the loop of \<open>split_sections\<close> on the state \<open>(sections, current_key)\<close>.
  \<open>sections[current_key]\<close> raises \<open>KeyError\<close> on a key that is not in the dictionary.
\<close>

definition split_sections_step ::
  "sections \<times> str option \<Rightarrow> str \<Rightarrow> exn + sections \<times> str option" where
  "split_sections_step st raw_line =
     (let sections = fst st; current_key = snd st; line = normalise_line raw_line in
      if line = [] then Inr (sections, current_key)
      else
        let key = map_of SECTION_NAMES (lower line) in
        if truthy key then Inr (sections, key)
        else
          (case current_key of
             None \<Rightarrow> Inr (sections, current_key)
           | Some k \<Rightarrow>
               (case sections k of
                  None \<Rightarrow> Inl (KeyError k)
                | Some ls \<Rightarrow> Inr (sections(k \<mapsto> ls @ [line]), current_key))))"

fun split_sections_loop ::
  "sections \<times> str option \<Rightarrow> str list \<Rightarrow> exn + sections \<times> str option" where
  "split_sections_loop st [] = Inr st"
| "split_sections_loop st (raw_line # lines) =
     (case split_sections_step st raw_line of
        Inl e \<Rightarrow> Inl e
      | Inr st' \<Rightarrow> split_sections_loop st' lines)"

definition split_sections :: "str list \<Rightarrow> exn + sections" where
  "split_sections lines =
     (case split_sections_loop (initial_sections, None) lines of
        Inl e \<Rightarrow> Inl e
      | Inr st \<Rightarrow> Inr (fst st))"

section \<open>Recap parser\<close>

definition is_terminal :: "nat \<Rightarrow> bool" where
  "is_terminal c \<longleftrightarrow> c = 46 \<or> c = 33 \<or> c = 63"

fun push_front :: "nat \<Rightarrow> str list \<Rightarrow> str list" where
  "push_front c [] = [[c]]"
| "push_front c (p # ps) = (c # p) # ps"

text \<open>
  \<open>SENTENCE_END_RE.split(paragraph)\<close> for the pattern \<open>(?<=[.!?])\s+\<close>. Scanning from the
  left, a match starts at a whitespace code point whose predecessor is one of \<open>.\<close>, \<open>!\<close>,
  \<open>?\<close>, and takes the longest run of whitespace from there; the pieces are the texts
  between the matches, the text before the first and the text after the last one included
  (also when empty).
\<close>

function SENTENCE_END_RE_split :: "str \<Rightarrow> str list" where
  "SENTENCE_END_RE_split [] = [[]]"
| "SENTENCE_END_RE_split [c] = [[c]]"
| "SENTENCE_END_RE_split (c # d # cs) =
     (if is_terminal c \<and> isspace d then [c] # SENTENCE_END_RE_split (dropWhile isspace cs)
      else push_front c (SENTENCE_END_RE_split (d # cs)))"
  by pat_completeness auto
termination
proof (relation "measure length", goal_cases)
  case 1
  show ?case by simp
next
  case (2 c d cs)
  have "length (dropWhile isspace cs) \<le> length cs"
    by (rule length_dropWhile_le)
  then show ?case by simp
next
  case (3 c d cs)
  show ?case by simp
qed

definition sentences_from_paragraph :: "str \<Rightarrow> str list" where
  "sentences_from_paragraph paragraph =
     (let parts = map strip (filter (\<lambda>part. strip part \<noteq> []) (SENTENCE_END_RE_split paragraph))
      in if parts \<noteq> [] then parts else [strip paragraph])"

fun parse_quick_recap_loop :: "str list \<Rightarrow> str list \<Rightarrow> str list" where
  "parse_quick_recap_loop sentences [] = sentences"
| "parse_quick_recap_loop sentences (line # lines) =
     parse_quick_recap_loop (sentences @ sentences_from_paragraph line) lines"

definition parse_quick_recap :: "str list \<Rightarrow> str list" where
  "parse_quick_recap lines = parse_quick_recap_loop [] lines"

section \<open>Action-item parser\<close>

text \<open>
  \<open>line.split(":", 1)\<close> when the line contains a colon: the text before the first colon and
  the text after it.
\<close>

definition split_colon_1 :: "str \<Rightarrow> str \<times> str" where
  "split_colon_1 line =
     (takeWhile (\<lambda>c. c \<noteq> 58) line, drop 1 (dropWhile (\<lambda>c. c \<noteq> 58) line))"

definition action_of_line :: "str \<Rightarrow> str \<times> str" where
  "action_of_line line =
     (if 58 \<in> set line
      then (strip (fst (split_colon_1 line)), strip (snd (split_colon_1 line)))
      else ([], strip line))"

fun parse_action_items_loop :: "(str \<times> str) list \<Rightarrow> str list \<Rightarrow> (str \<times> str) list" where
  "parse_action_items_loop results [] = results"
| "parse_action_items_loop results (line # lines) =
     (if snd (action_of_line line) = [] then parse_action_items_loop results lines
      else parse_action_items_loop
             (results @ [(or_else (Some (fst (action_of_line line))) (lit ''TBD''),
                          snd (action_of_line line))]) lines)"

definition parse_action_items :: "str list \<Rightarrow> (str \<times> str) list" where
  "parse_action_items lines = parse_action_items_loop [] lines"

section \<open>Summary-topic parser\<close>

text \<open>
  \<open>re.search(r"[.!?]$", line)\<close>: \<open>$\<close> matches at the end of the string and also just before
  a line feed that is the last code point.
\<close>

definition ends_with_terminal :: "str \<Rightarrow> bool" where
  "ends_with_terminal line \<longleftrightarrow>
     (line \<noteq> [] \<and> is_terminal (last line)) \<or>
     (line \<noteq> [] \<and> last line = 10 \<and> butlast line \<noteq> [] \<and> is_terminal (last (butlast line)))"

definition emit_topic ::
  "(str \<times> str) list \<Rightarrow> str option \<Rightarrow> str list \<Rightarrow> (str \<times> str) list" where
  "emit_topic topics current_title current_body =
     (if truthy current_title \<or> current_body \<noteq> []
      then topics @ [(or_else current_title (lit ''Summary''), strip (join (lit '' '') current_body))]
      else topics)"

fun parse_summary_topics_loop ::
  "(str \<times> str) list \<Rightarrow> str option \<Rightarrow> str list \<Rightarrow> str list \<Rightarrow> (str \<times> str) list" where
  "parse_summary_topics_loop topics current_title current_body [] =
     emit_topic topics current_title current_body"
| "parse_summary_topics_loop topics current_title current_body (line # lines) =
     (if line = [] then parse_summary_topics_loop topics current_title current_body lines
      else if \<not> ends_with_terminal line
      then parse_summary_topics_loop (emit_topic topics current_title current_body)
             (Some (strip line)) [] lines
      else parse_summary_topics_loop topics current_title (current_body @ [strip line]) lines)"

definition parse_summary_topics :: "str list \<Rightarrow> (str \<times> str) list" where
  "parse_summary_topics lines = parse_summary_topics_loop [] None [] lines"

section \<open>The whole parse\<close>

definition lookup :: "sections \<Rightarrow> str \<Rightarrow> exn + str list" where
  "lookup sections k = (case sections k of None \<Rightarrow> Inl (KeyError k) | Some ls \<Rightarrow> Inr ls)"

definition parse_summary :: "str \<Rightarrow> exn + ParsedSummary" where
  "parse_summary text =
     (case split_sections (splitlines text) of
        Inl e \<Rightarrow> Inl e
      | Inr sections \<Rightarrow>
          (case lookup sections (lit ''quick recap'') of
             Inl e \<Rightarrow> Inl e
           | Inr recap_lines \<Rightarrow>
               (case lookup sections (lit ''next steps'') of
                  Inl e \<Rightarrow> Inl e
                | Inr step_lines \<Rightarrow>
                    (case lookup sections (lit ''summary'') of
                       Inl e \<Rightarrow> Inl e
                     | Inr summary_lines \<Rightarrow>
                         Inr \<lparr>quick_recap = parse_quick_recap recap_lines,
                              action_items = parse_action_items step_lines,
                              summary_topics = parse_summary_topics summary_lines\<rparr>))))"

section \<open>Renderer\<close>

record Namespace =
  input :: str
  "output" :: "str option"
  date :: "str option"
  time :: "str option"
  connection :: "str option"
  attendees :: "str option"
  apologies :: "str option"
  student :: "str option"
  next_meeting :: "str option"
  follow_up :: "str option"

text \<open>What \<open>parse_args\<close> returns when only the input path is given: the declared defaults.\<close>

definition parse_args_defaults :: "str \<Rightarrow> Namespace" where
  "parse_args_defaults path =
     \<lparr>input = path, output = None,
      date = Some (lit ''YYYY-MM-DD''), time = Some (lit ''TBD''),
      connection = Some (lit ''TBD''), attendees = Some [], apologies = Some [],
      student = Some [], next_meeting = Some (lit ''TBD''), follow_up = None\<rparr>"

definition format_agenda :: "(str \<times> str) list \<Rightarrow> str list" where
  "format_agenda topics =
     (if topics \<noteq> [] then map (\<lambda>topic. lit ''- '' @ fst topic) topics
      else [lit ''- Updates from the supervisory team''])"

definition format_discussion_notes :: "str list \<Rightarrow> (str \<times> str) list \<Rightarrow> str list" where
  "format_discussion_notes recap topics =
     (let notes0 =
            (if recap \<noteq> []
             then (if length recap = 1 then [lit ''- Quick recap: '' @ recap ! 0]
                   else [lit ''- Quick recap: '' @ join (lit ''; '') recap])
             else []);
          notes =
            notes0 @
            map (\<lambda>topic.
                   lit ''- '' @ fst topic @ lit '': '' @
                   (if snd topic \<noteq> [] then snd topic
                    else lit ''Discussion captured in Zoom summary.'')) topics
      in if notes = [] then [lit ''- Discussion notes pending.''] else notes)"

definition format_action_table :: "(str \<times> str) list \<Rightarrow> str list" where
  "format_action_table items =
     (let rows = [lit ''| Action | Owner | Due | Status |'',
                  lit ''|--------|-------|-----|--------|'']
      in if items = [] then rows @ [lit ''| No action items recorded | - | - | - |'']
         else rows @
              map (\<lambda>item. lit ''| '' @ snd item @ lit '' | '' @ fst item @ lit '' |  | Open |'')
                items)"

definition time_label :: "Namespace \<Rightarrow> str" where
  "time_label args = or_else (time args) (lit ''TBD'')"

definition connection_label :: "Namespace \<Rightarrow> str" where
  "connection_label args = or_else (connection args) (lit ''TBD'')"

text \<open>The separator of the time/connection line: a space, the em dash U+2014, a space.\<close>

definition em_dash_sep :: str where
  "em_dash_sep = [32, 8212, 32]"

definition time_connection :: "Namespace \<Rightarrow> str" where
  "time_connection args =
     (if connection_label args \<noteq> [] \<and> connection_label args \<noteq> lit ''TBD''
      then time_label args @ em_dash_sep @ connection_label args
      else time_label args)"

definition markdown_parts :: "ParsedSummary \<Rightarrow> Namespace \<Rightarrow> str list" where
  "markdown_parts parsed args =
     (let date_label = or_else (date args) (lit ''YYYY-MM-DD'');
          attendees_label = or_else (attendees args) (or_else (student args) (lit ''TBD''));
          apologies_label = or_else (apologies args) (lit ''None'');
          agenda_lines = format_agenda (summary_topics parsed);
          discussion_lines = format_discussion_notes (quick_recap parsed) (summary_topics parsed);
          action_table = format_action_table (action_items parsed);
          follow_up_label =
            or_else (follow_up args)
              (lit ''- Note any reminders or checks before the next meeting.'')
      in [lit ''---'',
          lit ''## Meeting '' @ date_label,
          [],
          lit ''- **Date:** '' @ date_label,
          lit ''- **Time / connection:** '' @ time_connection args,
          lit ''- **Next meeting:** '' @ or_else (next_meeting args) (lit ''TBD''),
          lit ''- **Attendees:** '' @ attendees_label,
          lit ''- **Apologies:** '' @ apologies_label,
          [],
          lit ''### Agenda''] @
         agenda_lines @
         [[], lit ''### Discussion notes''] @
         discussion_lines @
         [[], lit ''### Action items''] @
         action_table @
         [[], lit ''### Follow-up'', follow_up_label, []])"

definition build_markdown :: "ParsedSummary \<Rightarrow> Namespace \<Rightarrow> str" where
  "build_markdown parsed args = join [10] (markdown_parts parsed args)"

section \<open>Loading, writing and the entry point\<close>







section \<open>The specification's reading of the parsers\<close>

text \<open>
  The definitions of this section follow the words of the specification, not the code; the
  theorems below compare them with the functions above.
\<close>

subsection \<open>Recap: split points\<close>

text \<open>
  A split point lies immediately after a \<open>.\<close>, \<open>!\<close> or \<open>?\<close> that is followed by
  whitespace. \<open>has_boundary\<close> says that a text has a split point; \<open>spec_fragments\<close> cuts a
  text at every split point and removes nothing. The sentences of a line are its fragments,
  trimmed, the empty ones dropped, and the trimmed line itself when none is left.
\<close>

fun has_boundary :: "str \<Rightarrow> bool" where
  "has_boundary [] = False"
| "has_boundary [c] = False"
| "has_boundary (c # d # cs) = ((is_terminal c \<and> isspace d) \<or> has_boundary (d # cs))"

fun spec_fragments :: "str \<Rightarrow> str list" where
  "spec_fragments [] = [[]]"
| "spec_fragments [c] = [[c]]"
| "spec_fragments (c # d # cs) =
     (if is_terminal c \<and> isspace d then [c] # spec_fragments (d # cs)
      else push_front c (spec_fragments (d # cs)))"

definition spec_sentences :: "str \<Rightarrow> str list" where
  "spec_sentences line =
     (let kept = filter (\<lambda>fragment. fragment \<noteq> []) (map strip (spec_fragments line))
      in if kept = [] then [strip line] else kept)"

text \<open>The fragments, trimmed, without the empty ones.\<close>

definition trimmed_nonempty :: "str list \<Rightarrow> str list" where
  "trimmed_nonempty fs = filter (\<lambda>fragment. fragment \<noteq> []) (map strip fs)"

subsection \<open>Action items: the record of one line\<close>

text \<open>What one iteration of the loop of \<open>parse_action_items\<close> appends for a line.\<close>

definition action_record :: "str \<Rightarrow> (str \<times> str) list" where
  "action_record line =
     (if snd (action_of_line line) = [] then []
      else [(or_else (Some (fst (action_of_line line))) (lit ''TBD''), snd (action_of_line line))])"

subsection \<open>Summary topics: grouping\<close>

text \<open>
  A line is a title when it does not end with \<open>.\<close>, \<open>!\<close> or \<open>?\<close>. Every title opens a
  record whose body is the run of body lines after it, joined with single spaces and
  trimmed; body lines before the first title form a record with the title \<open>Summary\<close>.
  A line of a bucket is not empty and has no whitespace at its ends.
\<close>

definition spec_is_title :: "str \<Rightarrow> bool" where
  "spec_is_title line \<longleftrightarrow> \<not> (line \<noteq> [] \<and> is_terminal (last line))"

function spec_topics :: "str list \<Rightarrow> (str \<times> str) list" where
  "spec_topics [] = []"
| "spec_topics (l # ls) =
     (if spec_is_title l
      then (l, strip (join (lit '' '') (takeWhile (\<lambda>x. \<not> spec_is_title x) ls)))
      else (lit ''Summary'', strip (join (lit '' '') (l # takeWhile (\<lambda>x. \<not> spec_is_title x) ls))))
     # spec_topics (dropWhile (\<lambda>x. \<not> spec_is_title x) ls)"
  by pat_completeness auto
termination
proof (relation "measure length", goal_cases)
  case 1
  show ?case by simp
next
  case (2 l ls)
  have "length (dropWhile (\<lambda>x. \<not> spec_is_title x) ls) \<le> length ls"
    by (rule length_dropWhile_le)
  then show ?case by simp
qed

definition bucket_line :: "str \<Rightarrow> bool" where
  "bucket_line l \<longleftrightarrow> l \<noteq> [] \<and> strip l = l"

subsection \<open>Section splitter: buckets\<close>

text \<open>
  A raw line is a header when, trimmed and lowered, it is a key of the table; \<open>spec_active\<close>
  is the canonical key of the header seen last. The bucket of a key holds, in order, the
  trimmed lines that are not blank and not headers and that come while this key is the
  active one.
\<close>

definition canonical_keys :: "str set" where
  "canonical_keys = {lit ''quick recap'', lit ''next steps'', lit ''summary''}"

definition spec_header :: "str \<Rightarrow> str option" where
  "spec_header raw = map_of SECTION_NAMES (lower (strip raw))"

definition spec_active :: "str list \<Rightarrow> str option" where
  "spec_active seen =
     (case List.find (\<lambda>raw. spec_header raw \<noteq> None) (rev seen) of
        None \<Rightarrow> None
      | Some raw \<Rightarrow> spec_header raw)"

definition spec_bucket :: "str \<Rightarrow> str list \<Rightarrow> str list" where
  "spec_bucket k lines =
     map (\<lambda>i. strip (lines ! i))
       (filter (\<lambda>i. strip (lines ! i) \<noteq> [] \<and> spec_header (lines ! i) = None \<and>
                     spec_active (take i lines) = Some k)
          [0..<length lines])"

subsection \<open>Worlds for the entry point\<close>




section \<open>Facts about strings, sentences, records and buckets\<close>

lemma terminal_not_space: "is_terminal c \<Longrightarrow> \<not> isspace c"
  by (auto simp: is_terminal_def isspace_def)

lemma dropWhile_all_iff: "(\<forall>x\<in>set (dropWhile P s). P x) \<longleftrightarrow> (\<forall>x\<in>set s. P x)"
  by (induction s) auto

lemma strip_Nil_iff: "strip s = [] \<longleftrightarrow> (\<forall>c\<in>set s. isspace c)"
  by (simp add: strip_def dropWhile_eq_Nil_conv dropWhile_all_iff)

lemma strip_decomp: "\<exists>a b. s = a @ strip s @ b"
proof -
  let ?t = "dropWhile isspace s"
  have 1: "s = takeWhile isspace s @ ?t" by simp
  have "rev ?t = takeWhile isspace (rev ?t) @ dropWhile isspace (rev ?t)" by simp
  then have "?t = rev (dropWhile isspace (rev ?t)) @ rev (takeWhile isspace (rev ?t))"
    by (metis rev_append rev_rev_ident)
  then have "?t = strip s @ rev (takeWhile isspace (rev ?t))" by (simp add: strip_def)
  with 1 show ?thesis by metis
qed

lemma strip_trimmed: "s \<noteq> [] \<Longrightarrow> \<not> isspace (hd s) \<Longrightarrow> \<not> isspace (last s) \<Longrightarrow> strip s = s"
proof -
  assume a: "s \<noteq> []" "\<not> isspace (hd s)" "\<not> isspace (last s)"
  then have 1: "dropWhile isspace s = s" by (cases s) auto
  from a have "rev s \<noteq> []" "\<not> isspace (hd (rev s))" by (auto simp: hd_rev)
  then have "dropWhile isspace (rev s) = rev s" by (cases "rev s") auto
  with 1 show ?thesis by (simp add: strip_def)
qed

lemma strip_ends: "strip s \<noteq> [] \<Longrightarrow> \<not> isspace (hd (strip s)) \<and> \<not> isspace (last (strip s))"
proof -
  assume a: "strip s \<noteq> []"
  let ?t = "dropWhile isspace s"
  let ?u = "dropWhile isspace (rev ?t)"
  from a have u: "?u \<noteq> []" by (simp add: strip_def)
  then have hu: "\<not> isspace (hd ?u)" by (rule hd_dropWhile)
  have l: "last (strip s) = hd ?u" using u by (simp add: strip_def last_rev)
  from u have t: "?t \<noteq> []" by (cases "?t = []") simp_all
  then have ht: "\<not> isspace (hd ?t)" by (rule hd_dropWhile)
  have "rev ?t = takeWhile isspace (rev ?t) @ ?u" by simp
  then have "?t = rev ?u @ rev (takeWhile isspace (rev ?t))" by (metis rev_append rev_rev_ident)
  then have "hd ?t = hd (rev ?u)" using u by (metis hd_append2 rev_is_Nil_conv)
  then have "hd (strip s) = hd ?t" by (simp add: strip_def)
  with ht hu l show ?thesis by simp
qed

lemma strip_idem: "strip (strip s) = strip s"
proof (cases "strip s = []")
  case True
  have "strip [] = []" by (simp add: strip_def)
  with True show ?thesis by simp
next
  case False
  with strip_ends[OF False] show ?thesis by (intro strip_trimmed) auto
qed

lemma strip_Cons_space: "isspace c \<Longrightarrow> strip (c # s) = strip s"
  by (simp add: strip_def)

lemma split_head: "\<exists>p ps. SENTENCE_END_RE_split (c # cs) = (c # p) # ps"
proof (induction "c # cs" arbitrary: c cs rule: SENTENCE_END_RE_split.induct)
  case (2 c)
  show ?case by simp
next
  case (3 c d cs)
  show ?case
  proof (cases "is_terminal c \<and> isspace d")
    case True then show ?thesis by simp
  next
    case False
    from 3(2)[OF False] obtain p ps where "SENTENCE_END_RE_split (d # cs) = (d # p) # ps" by blast
    with False show ?thesis by simp
  qed
qed

lemma split_no_boundary: "\<not> has_boundary s \<Longrightarrow> SENTENCE_END_RE_split s = [s]"
  by (induction s rule: SENTENCE_END_RE_split.induct) auto

lemma split_pieces_no_boundary: "p \<in> set (SENTENCE_END_RE_split s) \<Longrightarrow> \<not> has_boundary p"
proof (induction s arbitrary: p rule: SENTENCE_END_RE_split.induct)
  case 1 then show ?case by simp
next
  case (2 c) then show ?case by simp
next
  case (3 c d cs)
  show ?case
  proof (cases "is_terminal c \<and> isspace d")
    case True
    with 3 show ?thesis by auto
  next
    case False
    obtain q qs where q: "SENTENCE_END_RE_split (d # cs) = (d # q) # qs"
      using split_head by blast
    from 3(3) False q have "p = c # d # q \<or> p \<in> set qs" by auto
    then show ?thesis
    proof
      assume "p = c # d # q"
      moreover have "\<not> has_boundary (d # q)" using 3(2)[OF False, of "d # q"] q by simp
      ultimately show ?thesis using False by auto
    next
      assume "p \<in> set qs"
      then show ?thesis using 3(2)[OF False, of p] q by simp
    qed
  qed
qed

lemma has_boundary_append: "has_boundary xs \<or> has_boundary ys \<Longrightarrow> has_boundary (xs @ ys)"
proof (induction xs rule: has_boundary.induct)
  case 1 then show ?case by simp
next
  case (2 c)
  then show ?case by (cases ys) auto
next
  case (3 c d cs)
  then show ?case by auto
qed

lemma strip_no_boundary: "\<not> has_boundary p \<Longrightarrow> \<not> has_boundary (strip p)"
proof -
  assume a: "\<not> has_boundary p"
  obtain x y where "p = x @ strip p @ y" using strip_decomp by blast
  then show ?thesis using a has_boundary_append by metis
qed

lemma split_all_blank: "\<forall>p\<in>set (SENTENCE_END_RE_split s). strip p = [] \<Longrightarrow> \<forall>c\<in>set s. isspace c"
proof (induction s rule: SENTENCE_END_RE_split.induct)
  case 1 then show ?case by simp
next
  case (2 c) then show ?case by (simp add: strip_Nil_iff)
next
  case (3 c d cs)
  show ?case
  proof (cases "is_terminal c \<and> isspace d")
    case True
    with 3(3) have "strip [c] = []" by simp
    then have "isspace c" by (simp add: strip_Nil_iff)
    with True show ?thesis by (simp add: terminal_not_space)
  next
    case False
    obtain q qs where q: "SENTENCE_END_RE_split (d # cs) = (d # q) # qs"
      using split_head by blast
    from 3(3) False q have c: "strip (c # d # q) = []" and r: "\<forall>p\<in>set qs. strip p = []" by auto
    from c have "isspace c" "strip (d # q) = []" by (auto simp: strip_Nil_iff)
    with r q have "\<forall>p\<in>set (SENTENCE_END_RE_split (d # cs)). strip p = []" by simp
    from 3(2)[OF False this] \<open>isspace c\<close> show ?thesis by simp
  qed
qed

lemma blank_no_boundary: "\<forall>c\<in>set s. isspace c \<Longrightarrow> \<not> has_boundary s"
  by (induction s rule: has_boundary.induct) (auto simp: terminal_not_space)

lemma sentences_blank: "\<forall>c\<in>set s. isspace c \<Longrightarrow> sentences_from_paragraph s = [[]]"
proof -
  assume a: "\<forall>c\<in>set s. isspace c"
  then have "SENTENCE_END_RE_split s = [s]" by (simp add: blank_no_boundary split_no_boundary)
  moreover from a have "strip s = []" by (simp add: strip_Nil_iff)
  ultimately show ?thesis by (simp add: sentences_from_paragraph_def)
qed

lemma sentences_fixed: "x \<in> set (sentences_from_paragraph s) \<Longrightarrow> sentences_from_paragraph x = [x]"
proof -
  assume x: "x \<in> set (sentences_from_paragraph s)"
  let ?parts = "map strip (filter (\<lambda>part. strip part \<noteq> []) (SENTENCE_END_RE_split s))"
  show ?thesis
  proof (cases "?parts = []")
    case True
    then have "\<forall>p\<in>set (SENTENCE_END_RE_split s). strip p = []"
      by (auto simp: filter_empty_conv)
    then have b: "\<forall>c\<in>set s. isspace c" by (rule split_all_blank)
    then have "strip s = []" by (simp add: strip_Nil_iff)
    with True x have "x = []" by (simp add: sentences_from_paragraph_def)
    then show ?thesis using sentences_blank[of "[]"] by simp
  next
    case False
    with x have "x \<in> set ?parts" by (simp add: sentences_from_paragraph_def Let_def)
    then obtain p where p: "p \<in> set (SENTENCE_END_RE_split s)" "strip p \<noteq> []" "x = strip p"
      by auto
    from p(1) have "\<not> has_boundary p" by (rule split_pieces_no_boundary)
    then have "\<not> has_boundary x" using p(3) strip_no_boundary by simp
    then have "SENTENCE_END_RE_split x = [x]" by (rule split_no_boundary)
    moreover have "strip x = x" using p(3) strip_idem by simp
    moreover have "x \<noteq> []" using p by simp
    ultimately show ?thesis by (simp add: sentences_from_paragraph_def)
  qed
qed

lemma trimmed_nonempty_Cons: "trimmed_nonempty (f # fs) = (if strip f = [] then trimmed_nonempty fs else strip f # trimmed_nonempty fs)"
  by (simp add: trimmed_nonempty_def)

lemma spec_fragments_head: "\<exists>p ps. spec_fragments (c # cs) = (c # p) # ps"
proof (induction "c # cs" arbitrary: c cs rule: spec_fragments.induct)
  case (2 c)
  show ?case by simp
next
  case (3 c d cs)
  show ?case
  proof (cases "is_terminal c \<and> isspace d")
    case True then show ?thesis by simp
  next
    case False
    from 3(2)[OF False] obtain p ps where "spec_fragments (d # cs) = (d # p) # ps" by blast
    with False show ?thesis by simp
  qed
qed

lemma trimmed_spec_space: "isspace d \<Longrightarrow> trimmed_nonempty (spec_fragments (d # cs)) = trimmed_nonempty (spec_fragments cs)"
proof (cases cs)
  case Nil
  assume "isspace d"
  then show ?thesis using Nil by (simp add: trimmed_nonempty_def strip_Nil_iff)
next
  case (Cons e es)
  assume d: "isspace d"
  obtain p ps where p: "spec_fragments (e # es) = (e # p) # ps"
    using spec_fragments_head by blast
  from d have "\<not> is_terminal d" using terminal_not_space by blast
  with p Cons have "spec_fragments (d # cs) = (d # e # p) # ps" by simp
  with p Cons d show ?thesis by (simp add: trimmed_nonempty_def strip_Cons_space)
qed

lemma trimmed_spec_dropWhile: "trimmed_nonempty (spec_fragments (dropWhile isspace cs)) = trimmed_nonempty (spec_fragments cs)"
  by (induction cs) (simp_all add: trimmed_spec_space)

lemma split_spec_related:
  "\<exists>p ps qs. SENTENCE_END_RE_split s = p # ps \<and> spec_fragments s = p # qs \<and> trimmed_nonempty ps = trimmed_nonempty qs"
proof (induction s rule: SENTENCE_END_RE_split.induct)
  case 1 show ?case by simp
next
  case (2 c) show ?case by simp
next
  case (3 c d cs)
  show ?case
  proof (cases "is_terminal c \<and> isspace d")
    case True
    from 3(1)[OF True] obtain p ps qs where
      h: "SENTENCE_END_RE_split (dropWhile isspace cs) = p # ps"
         "spec_fragments (dropWhile isspace cs) = p # qs" "trimmed_nonempty ps = trimmed_nonempty qs" by blast
    then have "trimmed_nonempty (SENTENCE_END_RE_split (dropWhile isspace cs)) = trimmed_nonempty (spec_fragments (dropWhile isspace cs))"
      by (simp add: trimmed_nonempty_Cons)
    also have "\<dots> = trimmed_nonempty (spec_fragments cs)" by (rule trimmed_spec_dropWhile)
    also have "\<dots> = trimmed_nonempty (spec_fragments (d # cs))" using True by (simp add: trimmed_spec_space)
    finally show ?thesis using True by simp
  next
    case False
    from 3(2)[OF False] obtain p ps qs where
      h: "SENTENCE_END_RE_split (d # cs) = p # ps"
         "spec_fragments (d # cs) = p # qs" "trimmed_nonempty ps = trimmed_nonempty qs" by blast
    with False show ?thesis by auto
  qed
qed

lemma trimmed_split_spec: "trimmed_nonempty (SENTENCE_END_RE_split s) = trimmed_nonempty (spec_fragments s)"
proof -
  obtain p ps qs where "SENTENCE_END_RE_split s = p # ps" "spec_fragments s = p # qs" "trimmed_nonempty ps = trimmed_nonempty qs"
    using split_spec_related by blast
  then show ?thesis by (simp add: trimmed_nonempty_Cons)
qed

lemma sentences_spec: "sentences_from_paragraph s = spec_sentences s"
proof -
  have "map strip (filter (\<lambda>part. strip part \<noteq> []) (SENTENCE_END_RE_split s)) = trimmed_nonempty (SENTENCE_END_RE_split s)"
    by (simp add: trimmed_nonempty_def filter_map comp_def)
  then show ?thesis
    by (auto simp: sentences_from_paragraph_def spec_sentences_def Let_def trimmed_split_spec trimmed_nonempty_def[symmetric])
qed

lemma parse_quick_recap_loop_concat:
  "parse_quick_recap_loop acc lines = acc @ concat (map sentences_from_paragraph lines)"
  by (induction lines arbitrary: acc) simp_all

lemma spec_fragments_concat: "concat (spec_fragments s) = s"
proof (induction s rule: spec_fragments.induct)
  case (3 c d cs)
  obtain p ps where "spec_fragments (d # cs) = (d # p) # ps" using spec_fragments_head by blast
  with 3 show ?case by auto
qed simp_all

lemma parse_action_items_loop_concat:
  "parse_action_items_loop acc lines = acc @ concat (map action_record lines)"
  by (induction lines arbitrary: acc) (simp_all add: action_record_def)

lemma split_colon_1_first: "58 \<notin> set a \<Longrightarrow> split_colon_1 (a @ 58 # b) = (a, b)"
proof -
  assume a: "58 \<notin> set a"
  then have "takeWhile (\<lambda>c. c \<noteq> 58) (a @ 58 # b) = a"
    by (subst takeWhile_append2) auto
  moreover from a have "dropWhile (\<lambda>c. c \<noteq> 58) (a @ 58 # b) = 58 # b"
    by (subst dropWhile_append2) auto
  ultimately show ?thesis by (simp add: split_colon_1_def)
qed

lemma action_record_colon:
  "58 \<notin> set a \<Longrightarrow>
   action_record (a @ 58 # b) =
     (if strip b = [] then [] else [(if strip a = [] then lit ''TBD'' else strip a, strip b)])"
  by (simp add: action_record_def action_of_line_def split_colon_1_first)

lemma action_record_plain:
  "58 \<notin> set l \<Longrightarrow>
   action_record l = (if strip l = [] then [] else [(lit ''TBD'', strip l)])"
  by (simp add: action_record_def action_of_line_def)

lemma parse_action_items_owner_example: "parse_action_items [lit ''Alice: Send report''] = [(lit ''Alice'', lit ''Send report'')]"
  by (simp add: parse_action_items_def action_of_line_def split_colon_1_def lit_def strip_def isspace_def)
lemma parse_action_items_plain_example: "parse_action_items [lit ''Just do it''] = [(lit ''TBD'', lit ''Just do it'')]"
  by (simp add: parse_action_items_def action_of_line_def split_colon_1_def lit_def strip_def isspace_def)
lemma parse_action_items_dropped_example: "parse_action_items [lit ''Alice:''] = []"
  by (simp add: parse_action_items_def action_of_line_def split_colon_1_def lit_def strip_def isspace_def)

lemma bucket_line_title: "bucket_line l \<Longrightarrow> (\<not> ends_with_terminal l) = spec_is_title l"
proof -
  assume b: "bucket_line l"
  then have "strip l \<noteq> []" by (simp add: bucket_line_def)
  from strip_ends[OF this] b have "\<not> isspace (last l)" by (simp add: bucket_line_def)
  then have "last l \<noteq> 10" by (auto simp: isspace_def)
  then show ?thesis by (auto simp: ends_with_terminal_def spec_is_title_def)
qed

lemma topics_loop_spec:
  "\<forall>l\<in>set lines. bucket_line l \<Longrightarrow> ct \<noteq> Some [] \<Longrightarrow>
   parse_summary_topics_loop topics ct cb lines =
     topics @
     (if truthy ct \<or> cb \<noteq> []
      then (or_else ct (lit ''Summary''),
            strip (join (lit '' '') (cb @ takeWhile (\<lambda>x. \<not> spec_is_title x) lines)))
           # spec_topics (dropWhile (\<lambda>x. \<not> spec_is_title x) lines)
      else spec_topics lines)"
proof (induction lines arbitrary: topics ct cb)
  case Nil
  then show ?case by (simp add: emit_topic_def)
next
  case (Cons line lines)
  from Cons.prems have bl: "bucket_line line" and rest: "\<forall>l\<in>set lines. bucket_line l" by simp_all
  from bl have ne: "line \<noteq> []" and st: "strip line = line" by (simp_all add: bucket_line_def)
  note t = bucket_line_title[OF bl]
  show ?case
  proof (cases "spec_is_title line")
    case True
    have "parse_summary_topics_loop topics ct cb (line # lines) =
          parse_summary_topics_loop (emit_topic topics ct cb) (Some line) [] lines"
      using True t ne st by simp
    also have "\<dots> = emit_topic topics ct cb @
          (line, strip (join (lit '' '') (takeWhile (\<lambda>x. \<not> spec_is_title x) lines)))
           # spec_topics (dropWhile (\<lambda>x. \<not> spec_is_title x) lines)"
      using Cons.IH[OF rest, of "Some line" "emit_topic topics ct cb" "[]"] ne by simp
    finally show ?thesis using True by (simp add: emit_topic_def)
  next
    case False
    have "parse_summary_topics_loop topics ct cb (line # lines) =
          parse_summary_topics_loop topics ct (cb @ [line]) lines"
      using False t ne st by simp
    also have "\<dots> = topics @
          (or_else ct (lit ''Summary''),
            strip (join (lit '' '') ((cb @ [line]) @ takeWhile (\<lambda>x. \<not> spec_is_title x) lines)))
           # spec_topics (dropWhile (\<lambda>x. \<not> spec_is_title x) lines)"
      using Cons.IH[OF rest Cons.prems(2), of topics "cb @ [line]"] by simp
    finally show ?thesis using False Cons.prems(2) by (cases ct) auto
  qed
qed

lemma parse_summary_topics_spec:
  "\<forall>l\<in>set lines. bucket_line l \<Longrightarrow> parse_summary_topics lines = spec_topics lines"
  using topics_loop_spec[of lines None "[]" "[]"] by (simp add: parse_summary_topics_def)

lemma parse_summary_topics_example: "parse_summary_topics [lit ''Budget'', lit ''Discussed funding.'', lit ''Discussed timeline.'', lit ''Risks'', lit ''None noted.''] = [(lit ''Budget'', lit ''Discussed funding. Discussed timeline.''), (lit ''Risks'', lit ''None noted.'')]"
  by (simp add: parse_summary_topics_def emit_topic_def ends_with_terminal_def is_terminal_def lit_def strip_def isspace_def)

lemma section_values: "map_of SECTION_NAMES x = Some k \<Longrightarrow> k \<in> canonical_keys"
proof -
  assume "map_of SECTION_NAMES x = Some k"
  then have "(x, k) \<in> set SECTION_NAMES" by (rule map_of_SomeD)
  then show ?thesis by (auto simp: SECTION_NAMES_def canonical_keys_def)
qed

lemma lit_Nil_iff: "lit s = [] \<longleftrightarrow> s = []"
  by (simp add: lit_def)

lemma canonical_nonempty: "k \<in> canonical_keys \<Longrightarrow> k \<noteq> []"
  by (auto simp: canonical_keys_def lit_def)

lemma truthy_section: "truthy (map_of SECTION_NAMES x) \<longleftrightarrow> map_of SECTION_NAMES x \<noteq> None"
proof (cases "map_of SECTION_NAMES x")
  case None then show ?thesis by simp
next
  case (Some k)
  then have "k \<noteq> []" using section_values canonical_nonempty by blast
  with Some show ?thesis by simp
qed

lemma section_empty_key: "map_of SECTION_NAMES [] = None"
  by (simp add: SECTION_NAMES_def lit_def)

lemma spec_header_blank: "strip raw = [] \<Longrightarrow> spec_header raw = None"
  by (simp add: spec_header_def lower_def section_empty_key)

lemma spec_active_snoc:
  "spec_active (seen @ [raw]) = (if spec_header raw \<noteq> None then spec_header raw else spec_active seen)"
  by (simp add: spec_active_def)

lemma spec_active_canonical: "spec_active seen = Some k \<Longrightarrow> k \<in> canonical_keys"
proof -
  assume a: "spec_active seen = Some k"
  then obtain raw where "spec_header raw = Some k"
    by (auto simp: spec_active_def split: option.splits)
  then show ?thesis by (auto simp: spec_header_def dest: section_values)
qed

lemma spec_bucket_snoc:
  "spec_bucket k (lines @ [raw]) =
     spec_bucket k lines @
     (if strip raw \<noteq> [] \<and> spec_header raw = None \<and> spec_active lines = Some k
      then [strip raw] else [])"
proof -
  let ?P = "\<lambda>ls i. strip (ls ! i) \<noteq> [] \<and> spec_header (ls ! i) = None \<and> spec_active (take i ls) = Some k"
  have f: "filter (?P (lines @ [raw])) [0..<length lines] = filter (?P lines) [0..<length lines]"
    by (rule filter_cong) (auto simp: nth_append)
  have m: "map (\<lambda>i. strip ((lines @ [raw]) ! i)) (filter (?P lines) [0..<length lines]) =
           map (\<lambda>i. strip (lines ! i)) (filter (?P lines) [0..<length lines])"
    by (rule map_cong) (auto simp: nth_append)
  show ?thesis
    unfolding spec_bucket_def using f m by simp
qed

lemma split_sections_loop_snoc:
  "split_sections_loop st (lines @ [raw]) =
     (case split_sections_loop st lines of Inl e \<Rightarrow> Inl e | Inr st' \<Rightarrow> split_sections_step st' raw)"
  by (induction lines arbitrary: st) (auto split: sum.splits)

lemma split_sections_step_cases:
  "split_sections_step (m, cur) raw =
     (if strip raw = [] then Inr (m, cur)
      else if spec_header raw \<noteq> None then Inr (m, spec_header raw)
      else case cur of None \<Rightarrow> Inr (m, cur)
           | Some k \<Rightarrow> (case m k of None \<Rightarrow> Inl (KeyError k)
                         | Some ls \<Rightarrow> Inr (m(k \<mapsto> ls @ [strip raw]), cur)))"
  by (simp add: split_sections_step_def Let_def normalise_line_def truthy_section spec_header_def)

lemma split_sections_loop_spec:
  "\<exists>m. split_sections_loop (initial_sections, None) lines = Inr (m, spec_active lines) \<and>
       dom m = canonical_keys \<and>
       (\<forall>k\<in>canonical_keys. m k = Some (spec_bucket k lines))"
proof (induction lines rule: rev_induct)
  case Nil
  have "dom initial_sections = canonical_keys"
    by (auto simp: initial_sections_def canonical_keys_def)
  moreover have "\<forall>k\<in>canonical_keys. initial_sections k = Some (spec_bucket k [])"
    by (auto simp: initial_sections_def canonical_keys_def spec_bucket_def)
  ultimately show ?case by (simp add: spec_active_def)
next
  case (snoc raw lines)
  then obtain m where m:
    "split_sections_loop (initial_sections, None) lines = Inr (m, spec_active lines)"
    "dom m = canonical_keys" "\<forall>k\<in>canonical_keys. m k = Some (spec_bucket k lines)" by blast
  have loop: "split_sections_loop (initial_sections, None) (lines @ [raw]) =
        split_sections_step (m, spec_active lines) raw"
    using m(1) by (simp add: split_sections_loop_snoc)
  show ?case
  proof (cases "strip raw = []")
    case True
    then have "spec_header raw = None" by (rule spec_header_blank)
    with True m loop show ?thesis
      by (simp add: split_sections_step_cases spec_active_snoc spec_bucket_snoc)
  next
    case False
    note nonblank = False
    show ?thesis
    proof (cases "spec_header raw = None")
      case False
      with nonblank m loop show ?thesis
        by (simp add: split_sections_step_cases spec_active_snoc spec_bucket_snoc)
    next
      case True
      note nohdr = True
      show ?thesis
      proof (cases "spec_active lines")
        case None
        with nonblank nohdr m loop show ?thesis
          by (simp add: split_sections_step_cases spec_active_snoc spec_bucket_snoc)
      next
        case (Some k)
        then have kc: "k \<in> canonical_keys" by (rule spec_active_canonical)
        with m(3) have mk: "m k = Some (spec_bucket k lines)" by simp
        let ?m' = "m(k \<mapsto> spec_bucket k lines @ [strip raw])"
        have "split_sections_loop (initial_sections, None) (lines @ [raw]) = Inr (?m', spec_active (lines @ [raw]))"
          using loop nonblank nohdr Some mk
          by (simp add: split_sections_step_cases spec_active_snoc)
        moreover have "dom ?m' = canonical_keys" using m(2) kc by auto
        moreover have "\<forall>j\<in>canonical_keys. ?m' j = Some (spec_bucket j (lines @ [raw]))"
          using m(3) nonblank nohdr Some by (auto simp: spec_bucket_snoc)
        ultimately show ?thesis by blast
      qed
    qed
  qed
qed

lemma split_sections_spec:
  "\<exists>m. split_sections lines = Inr m \<and> dom m = canonical_keys \<and>
       (\<forall>k\<in>canonical_keys. m k = Some (spec_bucket k lines))"
proof -
  obtain m where "split_sections_loop (initial_sections, None) lines = Inr (m, spec_active lines)"
    "dom m = canonical_keys" "\<forall>k\<in>canonical_keys. m k = Some (spec_bucket k lines)"
    using split_sections_loop_spec by blast
  then show ?thesis by (simp add: split_sections_def)
qed

lemma spec_bucket_lines: "l \<in> set (spec_bucket k lines) \<Longrightarrow> l \<noteq> [] \<and> strip l = l \<and> l \<in> strip ` set lines"
  by (auto simp: spec_bucket_def strip_idem)

lemma spec_active_no_header: "\<forall>raw\<in>set seen. spec_header raw = None \<Longrightarrow> spec_active seen = None"
proof -
  assume "\<forall>raw\<in>set seen. spec_header raw = None"
  then have "List.find (\<lambda>raw. spec_header raw \<noteq> None) (rev seen) = None"
    by (simp add: find_None_iff)
  then show ?thesis by (simp add: spec_active_def)
qed

lemma spec_bucket_no_header: "\<forall>raw\<in>set lines. spec_header raw = None \<Longrightarrow> spec_bucket k lines = []"
proof -
  assume a: "\<forall>raw\<in>set lines. spec_header raw = None"
  have "\<And>i. spec_active (take i lines) = None"
  proof -
    fix i
    have "\<forall>raw\<in>set (take i lines). spec_header raw = None" using a by (auto dest: in_set_takeD)
    then show "spec_active (take i lines) = None" by (rule spec_active_no_header)
  qed
  then show ?thesis by (simp add: spec_bucket_def)
qed

section \<open>The action-item parser, line by line\<close>

lemma parse_action_items_Cons:
  "parse_action_items (line # lines) = parse_action_items [line] @ parse_action_items lines"
  by (simp add: parse_action_items_def parse_action_items_loop_concat)

lemma parse_action_items_single: "parse_action_items [line] = action_record line"
  by (simp add: parse_action_items_def parse_action_items_loop_concat)

text \<open>
  Claim C1. The action-item parser works line by line and in order. A line with a colon is
  split at its first colon into the trimmed owner (before) and the trimmed action (after);
  a line without a colon has an empty owner and the whole trimmed line as its action; an
  empty owner becomes \<open>TBD\<close>; a line whose action is empty gives no record. So
  \<open>Alice: Send report\<close> gives \<open>(Alice, Send report)\<close>, \<open>Just do it\<close> gives
  \<open>(TBD, Just do it)\<close> and \<open>Alice:\<close> gives nothing.
\<close>

theorem parse_action_items_per_line:
  "parse_action_items [] = [] \<and>
   parse_action_items (line # lines) = parse_action_items [line] @ parse_action_items lines \<and>
   (58 \<notin> set a \<longrightarrow>
      parse_action_items [a @ 58 # b] =
        (if strip b = [] then []
         else [(if strip a = [] then lit ''TBD'' else strip a, strip b)])) \<and>
   (58 \<notin> set line \<longrightarrow>
      parse_action_items [line] =
        (if strip line = [] then [] else [(lit ''TBD'', strip line)])) \<and>
   parse_action_items [lit ''Alice: Send report''] = [(lit ''Alice'', lit ''Send report'')] \<and>
   parse_action_items [lit ''Just do it''] = [(lit ''TBD'', lit ''Just do it'')] \<and>
   parse_action_items [lit ''Alice:''] = []"
proof -
  have "parse_action_items [] = []" by (simp add: parse_action_items_def)
  moreover note parse_action_items_Cons[of line lines]
  moreover have "58 \<notin> set a \<longrightarrow>
      parse_action_items [a @ 58 # b] =
        (if strip b = [] then []
         else [(if strip a = [] then lit ''TBD'' else strip a, strip b)])"
    by (simp add: parse_action_items_single action_record_colon)
  moreover have "58 \<notin> set line \<longrightarrow>
      parse_action_items [line] =
        (if strip line = [] then [] else [(lit ''TBD'', strip line)])"
    by (simp add: parse_action_items_single action_record_plain)
  moreover note parse_action_items_owner_example parse_action_items_plain_example parse_action_items_dropped_example
  ultimately show ?thesis by blast
qed

theorem parse_action_items_per_line_witness:
  "58 \<notin> set (lit ''Bob'') \<and>
   parse_action_items [lit ''Bob'' @ 58 # lit '' call : now ''] = [(lit ''Bob'', lit ''call : now'')] \<and>
   58 \<notin> set (lit '' go '') \<and>
   parse_action_items [lit '' go ''] = [(lit ''TBD'', lit ''go'')]"
  using parse_action_items_per_line [of "lit '' go ''" "[]" "lit ''Bob''" "lit '' call : now ''"]
  by (simp add: lit_def strip_def isspace_def)

section \<open>Sentence splitting\<close>

text \<open>
  Claim C7. Sentence splitting is idempotent: every sentence that the splitter returns for
  some string is returned unchanged, as the only sentence, when the splitter is applied to
  it again.
\<close>

theorem sentences_from_paragraph_idempotent:
  "x \<in> set (sentences_from_paragraph s) \<Longrightarrow> sentences_from_paragraph x = [x]"
  by (rule sentences_fixed)

theorem sentences_from_paragraph_idempotent_witness:
  "lit ''B!'' \<in> set (sentences_from_paragraph (lit ''A.  B! C'')) \<and>
   sentences_from_paragraph (lit ''B!'') = [lit ''B!'']"
proof -
  have h: "lit ''B!'' \<in> set (sentences_from_paragraph (lit ''A.  B! C''))"
    by (simp add: sentences_from_paragraph_def lit_def strip_def isspace_def is_terminal_def)
  show ?thesis using h sentences_from_paragraph_idempotent [OF h] by simp
qed

text \<open>
  Claim C10. The sentence splitter never returns an empty list. For an empty or
  whitespace-only string it returns the list whose only element is the empty string, so the
  recap parser, given such a line directly, emits an empty sentence.
\<close>

theorem sentences_from_paragraph_never_empty:
  "sentences_from_paragraph s \<noteq> [] \<and>
   ((\<forall>c\<in>set s. isspace c) \<longrightarrow>
      sentences_from_paragraph s = [[]] \<and> parse_quick_recap [s] = [[]])"
proof -
  have "sentences_from_paragraph s \<noteq> []"
    by (simp add: sentences_from_paragraph_def Let_def)
  moreover have "(\<forall>c\<in>set s. isspace c) \<longrightarrow> sentences_from_paragraph s = [[]]"
    by (simp add: sentences_blank)
  moreover have "parse_quick_recap [s] = sentences_from_paragraph s"
    by (simp add: parse_quick_recap_def)
  ultimately show ?thesis by simp
qed

theorem sentences_from_paragraph_never_empty_witness:
  "isspace 32 \<and> isspace 9 \<and> isspace 160 \<and> sentences_from_paragraph [32, 9, 160] = [[]] \<and>
   parse_quick_recap [[32, 9, 160]] = [[]] \<and> sentences_from_paragraph [] = [[]]"
  using sentences_from_paragraph_never_empty [of "[32, 9, 160]"]
    sentences_from_paragraph_never_empty [of "[]"]
  by (simp add: isspace_def)

section \<open>The recap parser and the split points\<close>

lemma spec_fragments_no_boundary: "f \<in> set (spec_fragments s) \<Longrightarrow> \<not> has_boundary f"
proof (induction s arbitrary: f rule: spec_fragments.induct)
  case 1 then show ?case by simp
next
  case (2 c) then show ?case by simp
next
  case (3 c d cs)
  obtain q qs where q: "spec_fragments (d # cs) = (d # q) # qs"
    using spec_fragments_head by blast
  show ?case
  proof (cases "is_terminal c \<and> isspace d")
    case True
    with 3 show ?thesis by auto
  next
    case False
    from 3(3) False q have "f = c # d # q \<or> f \<in> set qs" by auto
    then show ?thesis
    proof
      assume "f = c # d # q"
      moreover have "\<not> has_boundary (d # q)" using 3(2)[OF False, of "d # q"] q by simp
      ultimately show ?thesis using False by auto
    next
      assume "f \<in> set qs"
      then show ?thesis using 3(2)[OF False, of f] q by simp
    qed
  qed
qed

text \<open>
  Claim C3. The recap parser returns, for the lines in their order, the sentences of each
  line one after the other; the sentences of a line are the fragments obtained by cutting
  the line immediately after every \<open>.\<close>, \<open>!\<close> or \<open>?\<close> that is followed by whitespace,
  each trimmed, the empty ones dropped, and the trimmed line itself when no fragment is
  left. The cut loses nothing of the line and leaves no split point inside a fragment.
\<close>

theorem parse_quick_recap_sentences:
  "parse_quick_recap lines = concat (map spec_sentences lines) \<and>
   concat (spec_fragments line) = line \<and>
   (\<forall>f\<in>set (spec_fragments line). \<not> has_boundary f)"
proof -
  have "parse_quick_recap lines = concat (map sentences_from_paragraph lines)"
    by (simp add: parse_quick_recap_def parse_quick_recap_loop_concat)
  moreover have "sentences_from_paragraph = spec_sentences"
    by (rule ext) (rule sentences_spec)
  ultimately have "parse_quick_recap lines = concat (map spec_sentences lines)"
    by simp
  then show ?thesis
    by (simp add: spec_fragments_concat spec_fragments_no_boundary)
qed

theorem parse_quick_recap_sentences_witness:
  "parse_quick_recap [lit ''A.  B! C'', lit ''  '', lit '' no stop ''] =
     [lit ''A.'', lit ''B!'', lit ''C'', [], lit ''no stop''] \<and>
   spec_fragments (lit ''A.  B! C'') = [lit ''A.'', lit ''  B!'', lit '' C''] \<and>
   lit ''  B!'' \<in> set (spec_fragments (lit ''A.  B! C'')) \<and>
   \<not> has_boundary (lit ''  B!'')"
proof -
  have f: "spec_fragments (lit ''A.  B! C'') = [lit ''A.'', lit ''  B!'', lit '' C'']"
    by (simp add: lit_def is_terminal_def isspace_def)
  then have m: "lit ''  B!'' \<in> set (spec_fragments (lit ''A.  B! C''))" by simp
  have "concat (map spec_sentences [lit ''A.  B! C'', lit ''  '', lit '' no stop '']) =
     [lit ''A.'', lit ''B!'', lit ''C'', [], lit ''no stop'']"
    by (simp add: spec_sentences_def lit_def is_terminal_def isspace_def strip_def)
  with f m parse_quick_recap_sentences
      [of "[lit ''A.  B! C'', lit ''  '', lit '' no stop '']" "lit ''A.  B! C''"]
  show ?thesis by simp
qed

section \<open>The summary-topic parser and the grouping\<close>

text \<open>
  Claim C2. On the lines of the summary bucket (not empty, trimmed) the topic parser takes
  a line for a title exactly when it does not end with \<open>.\<close>, \<open>!\<close> or \<open>?\<close>, and returns
  one record per title with the body lines that follow it, joined with single spaces and
  trimmed, the last pending record included; body lines before any title form a record
  titled \<open>Summary\<close>. The lines \<open>Budget\<close>, \<open>Discussed funding.\<close>, \<open>Discussed timeline.\<close>,
  \<open>Risks\<close>, \<open>None noted.\<close> give exactly \<open>(Budget, Discussed funding. Discussed timeline.)\<close>
  and \<open>(Risks, None noted.)\<close>.
\<close>

theorem parse_summary_topics_groups:
  "((\<forall>l\<in>set lines. l \<noteq> [] \<and> strip l = l) \<longrightarrow>
      parse_summary_topics lines = spec_topics lines \<and>
      (\<forall>l\<in>set lines. (\<not> ends_with_terminal l) = spec_is_title l)) \<and>
   (split_sections raw = Inr m \<and> m (lit ''summary'') = Some lines \<longrightarrow>
      parse_summary_topics lines = spec_topics lines) \<and>
   parse_summary_topics
     [lit ''Budget'', lit ''Discussed funding.'', lit ''Discussed timeline.'', lit ''Risks'',
      lit ''None noted.''] =
     [(lit ''Budget'', lit ''Discussed funding. Discussed timeline.''),
      (lit ''Risks'', lit ''None noted.'')]"
proof -
  have a: "(\<forall>l\<in>set lines. l \<noteq> [] \<and> strip l = l) \<longrightarrow>
      parse_summary_topics lines = spec_topics lines \<and>
      (\<forall>l\<in>set lines. (\<not> ends_with_terminal l) = spec_is_title l)"
  proof
    assume "\<forall>l\<in>set lines. l \<noteq> [] \<and> strip l = l"
    then have b: "\<forall>l\<in>set lines. bucket_line l" by (simp add: bucket_line_def)
    then have "parse_summary_topics lines = spec_topics lines" by (rule parse_summary_topics_spec)
    moreover from b have "\<forall>l\<in>set lines. (\<not> ends_with_terminal l) = spec_is_title l"
      using bucket_line_title by blast
    ultimately show "parse_summary_topics lines = spec_topics lines \<and>
      (\<forall>l\<in>set lines. (\<not> ends_with_terminal l) = spec_is_title l)" by simp
  qed
  have b: "split_sections raw = Inr m \<and> m (lit ''summary'') = Some lines \<longrightarrow>
      parse_summary_topics lines = spec_topics lines"
  proof
    assume h: "split_sections raw = Inr m \<and> m (lit ''summary'') = Some lines"
    obtain m' where m': "split_sections raw = Inr m'"
      "\<forall>k\<in>canonical_keys. m' k = Some (spec_bucket k raw)"
      using split_sections_spec by blast
    have "lit ''summary'' \<in> canonical_keys" by (simp add: canonical_keys_def)
    with h m' have "lines = spec_bucket (lit ''summary'') raw" by auto
    then have "\<forall>l\<in>set lines. bucket_line l"
      using spec_bucket_lines by (auto simp: bucket_line_def)
    then show "parse_summary_topics lines = spec_topics lines" by (rule parse_summary_topics_spec)
  qed
  from a b parse_summary_topics_example show ?thesis by blast
qed

theorem parse_summary_topics_groups_witness:
  "lit ''Intro.'' \<noteq> [] \<and> strip (lit ''Intro.'') = lit ''Intro.'' \<and>
   lit ''Plan'' \<noteq> [] \<and> strip (lit ''Plan'') = lit ''Plan'' \<and>
   lit ''Go!'' \<noteq> [] \<and> strip (lit ''Go!'') = lit ''Go!'' \<and>
   parse_summary_topics [lit ''Intro.'', lit ''Plan'', lit ''Go!'', lit ''Next''] =
     [(lit ''Summary'', lit ''Intro.''), (lit ''Plan'', lit ''Go!''), (lit ''Next'', [])] \<and>
   \<not> spec_is_title (lit ''Intro.'') \<and> spec_is_title (lit ''Plan'')"
proof -
  have h: "\<forall>l\<in>set [lit ''Intro.'', lit ''Plan'', lit ''Go!'', lit ''Next'']. l \<noteq> [] \<and> strip l = l"
    by (simp add: lit_def strip_def isspace_def)
  have s: "spec_topics [lit ''Intro.'', lit ''Plan'', lit ''Go!'', lit ''Next''] =
     [(lit ''Summary'', lit ''Intro.''), (lit ''Plan'', lit ''Go!''), (lit ''Next'', [])]"
    by (simp add: spec_is_title_def is_terminal_def lit_def strip_def isspace_def)
  from h s parse_summary_topics_groups [of "[lit ''Intro.'', lit ''Plan'', lit ''Go!'', lit ''Next'']"]
  show ?thesis by (simp add: spec_is_title_def is_terminal_def lit_def strip_def isspace_def)
qed

section \<open>The section splitter and the buckets\<close>

lemma split_sections_loop_append:
  "split_sections_loop st (xs @ ys) =
     (case split_sections_loop st xs of Inl e \<Rightarrow> Inl e | Inr st' \<Rightarrow> split_sections_loop st' ys)"
  by (induction xs arbitrary: st) (auto split: sum.splits)

lemma split_sections_step_blank: "strip raw = [] \<Longrightarrow> split_sections_step st raw = Inr st"
  by (cases st) (simp add: split_sections_step_cases)

lemma split_sections_loop_skip_blank:
  "strip raw = [] \<Longrightarrow>
   split_sections_loop st (xs @ raw # ys) = split_sections_loop st (xs @ ys)"
proof -
  assume b: "strip raw = []"
  have "\<And>st'. split_sections_loop st' (raw # ys) = split_sections_loop st' ys"
    using b by (simp add: split_sections_step_blank)
  then show ?thesis by (simp only: split_sections_loop_append)
qed

lemma split_sections_skip_blank:
  "strip raw = [] \<Longrightarrow> split_sections (xs @ raw # ys) = split_sections (xs @ ys)"
  by (simp only: split_sections_def split_sections_loop_skip_blank)

lemma split_sections_loop_before_header:
  "\<forall>raw\<in>set pre. spec_header raw = None \<Longrightarrow>
   split_sections_loop (m, None) (pre @ rest) = split_sections_loop (m, None) rest"
  by (induction pre) (simp_all add: split_sections_step_cases)

lemma split_sections_before_header:
  "\<forall>raw\<in>set pre. spec_header raw = None \<Longrightarrow> split_sections (pre @ rest) = split_sections rest"
  by (simp add: split_sections_def split_sections_loop_before_header)

lemma canonical_keys_spec:
  "(\<forall>k\<in>canonical_keys. P k) \<longleftrightarrow>
     P (lit ''quick recap'') \<and> P (lit ''next steps'') \<and> P (lit ''summary'')"
  by (simp add: canonical_keys_def)

text \<open>
  Claim C4. The section splitter never fails, and the bucket of each canonical key holds, in
  order, the trimmed lines that are not blank, are not headers, and come after a header of
  this key with no other header in between. Header lines are not stored; a blank line
  changes nothing; lines before the first header are discarded.
\<close>

theorem split_sections_buckets:
  "(\<exists>m. split_sections lines = Inr m \<and>
        m (lit ''quick recap'') = Some (spec_bucket (lit ''quick recap'') lines) \<and>
        m (lit ''next steps'') = Some (spec_bucket (lit ''next steps'') lines) \<and>
        m (lit ''summary'') = Some (spec_bucket (lit ''summary'') lines)) \<and>
   (strip blank = [] \<longrightarrow> split_sections (xs @ blank # ys) = split_sections (xs @ ys)) \<and>
   ((\<forall>raw\<in>set pre. spec_header raw = None) \<longrightarrow>
      split_sections (pre @ lines) = split_sections lines)"
proof -
  obtain m where "split_sections lines = Inr m"
    "\<forall>k\<in>canonical_keys. m k = Some (spec_bucket k lines)"
    using split_sections_spec by blast
  then have "\<exists>m. split_sections lines = Inr m \<and>
        m (lit ''quick recap'') = Some (spec_bucket (lit ''quick recap'') lines) \<and>
        m (lit ''next steps'') = Some (spec_bucket (lit ''next steps'') lines) \<and>
        m (lit ''summary'') = Some (spec_bucket (lit ''summary'') lines)"
    by (auto simp: canonical_keys_spec)
  then show ?thesis
    using split_sections_skip_blank split_sections_before_header by blast
qed

theorem split_sections_buckets_witness:
  "strip [32, 9] = [] \<and> spec_header (lit ''intro'') = None \<and>
   (\<exists>m. split_sections [lit ''intro'', lit ''Recap:'', lit '' a. '', [32, 9], lit ''ACTIONS'', lit ''b''] = Inr m \<and>
        m (lit ''quick recap'') = Some [lit ''a.''] \<and>
        m (lit ''next steps'') = Some [lit ''b''] \<and>
        m (lit ''summary'') = Some []) \<and>
   split_sections ([lit ''Recap:''] @ [32, 9] # [lit ''a'']) = split_sections ([lit ''Recap:''] @ [lit ''a'']) \<and>
   split_sections ([lit ''intro''] @ [lit ''Recap:'', lit ''a'']) = split_sections [lit ''Recap:'', lit ''a'']"
proof -
  let ?L = "[lit ''intro'', lit ''Recap:'', lit '' a. '', [32, 9], lit ''ACTIONS'', lit ''b'']"
  have b: "strip [32, 9] = []" by (simp add: strip_def isspace_def)
  have h: "spec_header (lit ''intro'') = None"
    by (simp add: spec_header_def SECTION_NAMES_def lit_def lower_def lower_char_def strip_def isspace_def)
  have hs: "spec_header (lit ''Recap:'') = Some (lit ''quick recap'')"
      "spec_header (lit '' a. '') = None" "spec_header [32, 9] = None"
      "spec_header (lit ''ACTIONS'') = Some (lit ''next steps'')" "spec_header (lit ''b'') = None"
    by (simp_all add: spec_header_def SECTION_NAMES_def lit_def lower_def lower_char_def strip_def isspace_def)
  have st: "strip (lit ''intro'') = lit ''intro''" "strip (lit '' a. '') = lit ''a.''" "strip (lit ''b'') = lit ''b''"
    by (simp_all add: lit_def strip_def isspace_def)
  have ne: "lit ''quick recap'' \<noteq> lit ''next steps''" "lit ''quick recap'' \<noteq> lit ''summary''"
     "lit ''next steps'' \<noteq> lit ''summary''" "lit ''intro'' \<noteq> []" "lit ''a.'' \<noteq> []" "lit ''b'' \<noteq> []"
    by (simp_all add: lit_def)
  have q: "spec_bucket (lit ''quick recap'') ?L = [lit ''a.'']"
    using ne by (simp add: spec_bucket_def spec_active_def upt_rec_numeral h hs st b)
  have n: "spec_bucket (lit ''next steps'') ?L = [lit ''b'']"
    using ne by (simp add: spec_bucket_def spec_active_def upt_rec_numeral h hs st b)
  have s: "spec_bucket (lit ''summary'') ?L = []"
    using ne by (simp add: spec_bucket_def spec_active_def upt_rec_numeral h hs st b)
  have p: "\<forall>raw\<in>set [lit ''intro'']. spec_header raw = None" using h by simp
  from split_sections_buckets [of ?L "[32, 9]" "[lit ''Recap:'']" "[lit ''a'']" "[]"]
    split_sections_buckets [of "[lit ''Recap:'', lit ''a'']" "[32, 9]" "[lit ''Recap:'']" "[lit ''a'']" "[lit ''intro'']"]
    b h p q n s
  show ?thesis by simp
qed

lemma split_sections_no_header:
  "\<forall>raw\<in>set lines. spec_header raw = None \<Longrightarrow> split_sections lines = Inr initial_sections"
  using split_sections_loop_before_header [of lines initial_sections "[]"]
  by (simp add: split_sections_def)

lemma dom_initial_sections:
  "dom initial_sections = {lit ''quick recap'', lit ''next steps'', lit ''summary''}"
  by (auto simp: initial_sections_def)

text \<open>
  Claim C9. The section splitter returns a mapping whose keys are exactly \<open>quick recap\<close>,
  \<open>next steps\<close> and \<open>summary\<close>; every stored line is the trimmed form of an input line and
  is not empty. The three keys are there, each with the empty list, for the empty input
  and for an input without headers.
\<close>

theorem split_sections_keys:
  "(\<exists>m. split_sections lines = Inr m \<and>
        dom m = {lit ''quick recap'', lit ''next steps'', lit ''summary''} \<and>
        (\<forall>k ls. m k = Some ls \<longrightarrow>
           (\<forall>l\<in>set ls. l \<noteq> [] \<and> strip l = l \<and> l \<in> strip ` set lines))) \<and>
   split_sections [] = Inr initial_sections \<and>
   ((\<forall>raw\<in>set lines. spec_header raw = None) \<longrightarrow> split_sections lines = Inr initial_sections) \<and>
   dom initial_sections = {lit ''quick recap'', lit ''next steps'', lit ''summary''} \<and>
   (\<forall>k\<in>dom initial_sections. initial_sections k = Some [])"
proof -
  obtain m where m: "split_sections lines = Inr m" "dom m = canonical_keys"
    "\<forall>k\<in>canonical_keys. m k = Some (spec_bucket k lines)"
    using split_sections_spec by blast
  have "\<forall>k ls. m k = Some ls \<longrightarrow>
           (\<forall>l\<in>set ls. l \<noteq> [] \<and> strip l = l \<and> l \<in> strip ` set lines)"
  proof (intro allI impI)
    fix k ls
    assume a: "m k = Some ls"
    then have "k \<in> canonical_keys" using m(2) by auto
    with m(3) a have "ls = spec_bucket k lines" by auto
    then show "\<forall>l\<in>set ls. l \<noteq> [] \<and> strip l = l \<and> l \<in> strip ` set lines"
      using spec_bucket_lines by blast
  qed
  with m have 1: "\<exists>m. split_sections lines = Inr m \<and>
        dom m = {lit ''quick recap'', lit ''next steps'', lit ''summary''} \<and>
        (\<forall>k ls. m k = Some ls \<longrightarrow>
           (\<forall>l\<in>set ls. l \<noteq> [] \<and> strip l = l \<and> l \<in> strip ` set lines))"
    by (auto simp: canonical_keys_def)
  have 2: "split_sections [] = Inr initial_sections" by (simp add: split_sections_def)
  have 3: "\<forall>k\<in>dom initial_sections. initial_sections k = Some []"
    by (auto simp: initial_sections_def split: if_splits)
  have 4: "(\<forall>raw\<in>set lines. spec_header raw = None) \<longrightarrow>
      split_sections lines = Inr initial_sections"
    by (simp add: split_sections_no_header)
  show ?thesis
    by (intro conjI) (rule 1, rule 2, rule 4, rule dom_initial_sections, rule 3)
qed

theorem split_sections_keys_witness:
  "(\<exists>m. split_sections [lit ''Recap'', lit '' a ''] = Inr m \<and>
        dom m = {lit ''quick recap'', lit ''next steps'', lit ''summary''} \<and>
        m (lit ''quick recap'') = Some [lit ''a''] \<and>
        lit ''a'' \<noteq> [] \<and> strip (lit ''a'') = lit ''a'') \<and>
   spec_header (lit ''hello'') = None \<and>
   split_sections [lit ''hello''] = Inr initial_sections \<and>
   lit ''summary'' \<in> dom initial_sections \<and> initial_sections (lit ''summary'') = Some []"
proof -
  let ?L = "[lit ''Recap'', lit '' a '']"
  have h: "spec_header (lit ''hello'') = None"
    by (simp add: spec_header_def SECTION_NAMES_def lit_def lower_def lower_char_def strip_def isspace_def)
  then have p: "\<forall>raw\<in>set [lit ''hello'']. spec_header raw = None" by simp
  have hs: "spec_header (lit ''Recap'') = Some (lit ''quick recap'')" "spec_header (lit '' a '') = None"
    by (simp_all add: spec_header_def SECTION_NAMES_def lit_def lower_def lower_char_def strip_def isspace_def)
  have st: "strip (lit '' a '') = lit ''a''" "lit ''a'' \<noteq> []"
    by (simp_all add: lit_def strip_def isspace_def)
  have q: "spec_bucket (lit ''quick recap'') ?L = [lit ''a'']"
    by (simp add: spec_bucket_def spec_active_def upt_rec_numeral hs st)
  obtain m' where m': "split_sections ?L = Inr m'"
    "\<forall>k\<in>canonical_keys. m' k = Some (spec_bucket k ?L)"
    using split_sections_spec by blast
  have "lit ''quick recap'' \<in> canonical_keys" by (simp add: canonical_keys_def)
  with m'(2) q have mq': "m' (lit ''quick recap'') = Some [lit ''a'']" by simp
  from split_sections_keys [of ?L] obtain m where
    m: "split_sections ?L = Inr m"
       "dom m = {lit ''quick recap'', lit ''next steps'', lit ''summary''}"
       "\<forall>k ls. m k = Some ls \<longrightarrow>
           (\<forall>l\<in>set ls. l \<noteq> [] \<and> strip l = l \<and> l \<in> strip ` set ?L)"
    by (elim conjE exE)
  from m(1) m'(1) have "m = m'" by simp
  with mq' have mq: "m (lit ''quick recap'') = Some [lit ''a'']" by simp
  from m(3) mq have "\<forall>l\<in>set [lit ''a'']. l \<noteq> [] \<and> strip l = l \<and> l \<in> strip ` set ?L"
    by (elim allE impE) assumption
  then have a: "lit ''a'' \<noteq> [] \<and> strip (lit ''a'') = lit ''a''" by simp
  have 1: "\<exists>m. split_sections ?L = Inr m \<and>
        dom m = {lit ''quick recap'', lit ''next steps'', lit ''summary''} \<and>
        m (lit ''quick recap'') = Some [lit ''a''] \<and>
        lit ''a'' \<noteq> [] \<and> strip (lit ''a'') = lit ''a''"
    using m(1) m(2) mq a by (intro exI[of _ m]) simp
  note k = split_sections_keys [of "[lit ''hello'']"]
  from k p have 2: "split_sections [lit ''hello''] = Inr initial_sections" by simp
  from k have 3: "dom initial_sections = {lit ''quick recap'', lit ''next steps'', lit ''summary''}"
    by (elim conjE)
  from k have 4: "\<forall>k\<in>dom initial_sections. initial_sections k = Some []"
    by (elim conjE)
  from 3 have 5: "lit ''summary'' \<in> dom initial_sections" by simp
  from 4 5 have 6: "initial_sections (lit ''summary'') = Some []" by (rule bspec)
  show ?thesis by (intro conjI) (rule 1, rule h, rule 2, rule 5, rule 6)
qed

section \<open>Rendering without headers\<close>

lemma initial_sections_lookup:
  "lookup initial_sections (lit ''quick recap'') = Inr []"
  "lookup initial_sections (lit ''next steps'') = Inr []"
  "lookup initial_sections (lit ''summary'') = Inr []"
  by (simp_all add: lookup_def initial_sections_def)

lemma parse_summary_no_header:
  "\<forall>raw\<in>set (splitlines text). spec_header raw = None \<Longrightarrow>
   parse_summary text = Inr \<lparr>quick_recap = [], action_items = [], summary_topics = []\<rparr>"
  by (simp add: parse_summary_def split_sections_no_header initial_sections_lookup
      parse_quick_recap_def parse_action_items_def parse_summary_topics_def emit_topic_def)

lemma markdown_parts_empty:
  "markdown_parts \<lparr>quick_recap = [], action_items = [], summary_topics = []\<rparr> args =
     [lit ''---'',
      lit ''## Meeting '' @ or_else (date args) (lit ''YYYY-MM-DD''),
      [],
      lit ''- **Date:** '' @ or_else (date args) (lit ''YYYY-MM-DD''),
      lit ''- **Time / connection:** '' @ time_connection args,
      lit ''- **Next meeting:** '' @ or_else (next_meeting args) (lit ''TBD''),
      lit ''- **Attendees:** '' @ or_else (attendees args) (or_else (student args) (lit ''TBD'')),
      lit ''- **Apologies:** '' @ or_else (apologies args) (lit ''None''),
      [],
      lit ''### Agenda'',
      lit ''- Updates from the supervisory team'',
      [],
      lit ''### Discussion notes'',
      lit ''- Discussion notes pending.'',
      [],
      lit ''### Action items'',
      lit ''| Action | Owner | Due | Status |'',
      lit ''|--------|-------|-----|--------|'',
      lit ''| No action items recorded | - | - | - |'',
      [],
      lit ''### Follow-up'',
      or_else (follow_up args) (lit ''- Note any reminders or checks before the next meeting.''),
      []]"
  by (simp add: markdown_parts_def format_agenda_def format_discussion_notes_def
      format_action_table_def Let_def)

text \<open>
  Claim C6. When no line of the input text is a section header, the three buckets are
  empty, the parse has no recap sentence, no action item and no topic, and the rendered
  Markdown has the single fallback bullet in the Agenda block, the single pending-notes
  bullet in the Discussion-notes block and the single fallback row in the Action-items
  table.
\<close>

theorem no_header_fallback:
  "(\<forall>raw\<in>set (splitlines text). spec_header raw = None) \<longrightarrow>
     (\<exists>m. split_sections (splitlines text) = Inr m \<and>
          m (lit ''quick recap'') = Some [] \<and> m (lit ''next steps'') = Some [] \<and>
          m (lit ''summary'') = Some []) \<and>
     parse_summary text = Inr \<lparr>quick_recap = [], action_items = [], summary_topics = []\<rparr> \<and>
     format_agenda [] = [lit ''- Updates from the supervisory team''] \<and>
     format_discussion_notes [] [] = [lit ''- Discussion notes pending.''] \<and>
     format_action_table [] =
       [lit ''| Action | Owner | Due | Status |'',
        lit ''|--------|-------|-----|--------|'',
        lit ''| No action items recorded | - | - | - |''] \<and>
     build_markdown \<lparr>quick_recap = [], action_items = [], summary_topics = []\<rparr> args =
       join [10]
         [lit ''---'',
          lit ''## Meeting '' @ or_else (date args) (lit ''YYYY-MM-DD''),
          [],
          lit ''- **Date:** '' @ or_else (date args) (lit ''YYYY-MM-DD''),
          lit ''- **Time / connection:** '' @ time_connection args,
          lit ''- **Next meeting:** '' @ or_else (next_meeting args) (lit ''TBD''),
          lit ''- **Attendees:** '' @ or_else (attendees args) (or_else (student args) (lit ''TBD'')),
          lit ''- **Apologies:** '' @ or_else (apologies args) (lit ''None''),
          [],
          lit ''### Agenda'',
          lit ''- Updates from the supervisory team'',
          [],
          lit ''### Discussion notes'',
          lit ''- Discussion notes pending.'',
          [],
          lit ''### Action items'',
          lit ''| Action | Owner | Due | Status |'',
          lit ''|--------|-------|-----|--------|'',
          lit ''| No action items recorded | - | - | - |'',
          [],
          lit ''### Follow-up'',
          or_else (follow_up args) (lit ''- Note any reminders or checks before the next meeting.''),
          []]"
proof
  assume h: "\<forall>raw\<in>set (splitlines text). spec_header raw = None"
  then have s: "split_sections (splitlines text) = Inr initial_sections"
    by (rule split_sections_no_header)
  have i: "initial_sections (lit ''quick recap'') = Some [] \<and>
      initial_sections (lit ''next steps'') = Some [] \<and> initial_sections (lit ''summary'') = Some []"
    by (simp add: initial_sections_def)
  have 1: "\<exists>m. split_sections (splitlines text) = Inr m \<and>
          m (lit ''quick recap'') = Some [] \<and> m (lit ''next steps'') = Some [] \<and>
          m (lit ''summary'') = Some []"
    using s i by (intro exI[of _ initial_sections]) simp
  note 2 = parse_summary_no_header[OF h]
  have 3: "format_agenda [] = [lit ''- Updates from the supervisory team'']"
    by (simp add: format_agenda_def)
  have 4: "format_discussion_notes [] [] = [lit ''- Discussion notes pending.'']"
    by (simp add: format_discussion_notes_def Let_def)
  have 5: "format_action_table [] =
       [lit ''| Action | Owner | Due | Status |'',
        lit ''|--------|-------|-----|--------|'',
        lit ''| No action items recorded | - | - | - |'']"
    by (simp add: format_action_table_def Let_def)
  note 6 = markdown_parts_empty[of args]
  show "(\<exists>m. split_sections (splitlines text) = Inr m \<and>
          m (lit ''quick recap'') = Some [] \<and> m (lit ''next steps'') = Some [] \<and>
          m (lit ''summary'') = Some []) \<and>
     parse_summary text = Inr \<lparr>quick_recap = [], action_items = [], summary_topics = []\<rparr> \<and>
     format_agenda [] = [lit ''- Updates from the supervisory team''] \<and>
     format_discussion_notes [] [] = [lit ''- Discussion notes pending.''] \<and>
     format_action_table [] =
       [lit ''| Action | Owner | Due | Status |'',
        lit ''|--------|-------|-----|--------|'',
        lit ''| No action items recorded | - | - | - |''] \<and>
     build_markdown \<lparr>quick_recap = [], action_items = [], summary_topics = []\<rparr> args =
       join [10]
         [lit ''---'',
          lit ''## Meeting '' @ or_else (date args) (lit ''YYYY-MM-DD''),
          [],
          lit ''- **Date:** '' @ or_else (date args) (lit ''YYYY-MM-DD''),
          lit ''- **Time / connection:** '' @ time_connection args,
          lit ''- **Next meeting:** '' @ or_else (next_meeting args) (lit ''TBD''),
          lit ''- **Attendees:** '' @ or_else (attendees args) (or_else (student args) (lit ''TBD'')),
          lit ''- **Apologies:** '' @ or_else (apologies args) (lit ''None''),
          [],
          lit ''### Agenda'',
          lit ''- Updates from the supervisory team'',
          [],
          lit ''### Discussion notes'',
          lit ''- Discussion notes pending.'',
          [],
          lit ''### Action items'',
          lit ''| Action | Owner | Due | Status |'',
          lit ''|--------|-------|-----|--------|'',
          lit ''| No action items recorded | - | - | - |'',
          [],
          lit ''### Follow-up'',
          or_else (follow_up args) (lit ''- Note any reminders or checks before the next meeting.''),
          []]"
    unfolding build_markdown_def 6
    by (intro conjI) (rule 1, rule 2, rule 3, rule 4, rule 5, rule refl)
qed

theorem no_header_fallback_witness:
  "splitlines (lit ''Hello.'' @ 10 # lit ''recap of it'') = [lit ''Hello.'', lit ''recap of it''] \<and>
   spec_header (lit ''Hello.'') = None \<and> spec_header (lit ''recap of it'') = None \<and>
   parse_summary (lit ''Hello.'' @ 10 # lit ''recap of it'') =
     Inr \<lparr>quick_recap = [], action_items = [], summary_topics = []\<rparr> \<and>
   format_agenda [] = [lit ''- Updates from the supervisory team'']"
proof -
  have s: "splitlines (lit ''Hello.'' @ 10 # lit ''recap of it'') = [lit ''Hello.'', lit ''recap of it'']"
    by (simp add: lit_def is_linebreak_def)
  have h: "spec_header (lit ''Hello.'') = None" "spec_header (lit ''recap of it'') = None"
    by (simp_all add: spec_header_def SECTION_NAMES_def lit_def lower_def lower_char_def strip_def isspace_def)
  from s h have p: "\<forall>raw\<in>set (splitlines (lit ''Hello.'' @ 10 # lit ''recap of it'')). spec_header raw = None"
    by simp
  from no_header_fallback [of "lit ''Hello.'' @ 10 # lit ''recap of it''"] p
  have "parse_summary (lit ''Hello.'' @ 10 # lit ''recap of it'') =
     Inr \<lparr>quick_recap = [], action_items = [], summary_topics = []\<rparr> \<and>
     format_agenda [] = [lit ''- Updates from the supervisory team'']" by blast
  with s h show ?thesis by simp
qed

section \<open>The time/connection line\<close>

text \<open>
  Claim C8. The time/connection line is the time value, an em dash between spaces and the
  connection value when a connection is given, is not empty and is not \<open>TBD\<close>; otherwise
  it is the time value alone. The time value is the \<open>time\<close> argument, or \<open>TBD\<close> when that
  is missing or empty. With the default of \<open>--connection\<close> the line is the time value
  alone.
\<close>

theorem time_connection_line:
  "markdown_parts parsed args ! 4 = lit ''- **Time / connection:** '' @ time_connection args \<and>
   (connection args = Some c \<and> c \<noteq> [] \<and> c \<noteq> lit ''TBD'' \<longrightarrow>
      time_connection args = time_label args @ [32, 8212, 32] @ c) \<and>
   (connection args = None \<or> connection args = Some [] \<or> connection args = Some (lit ''TBD'') \<longrightarrow>
      time_connection args = time_label args) \<and>
   (time args = Some t \<and> t \<noteq> [] \<longrightarrow> time_label args = t) \<and>
   (time args = None \<or> time args = Some [] \<longrightarrow> time_label args = lit ''TBD'') \<and>
   (t \<noteq> [] \<longrightarrow> time_connection ((parse_args_defaults path)\<lparr>time := Some t\<rparr>) = t)"
proof -
  have 1: "markdown_parts parsed args ! 4 = lit ''- **Time / connection:** '' @ time_connection args"
    by (simp add: markdown_parts_def Let_def)
  have 2: "connection args = Some c \<and> c \<noteq> [] \<and> c \<noteq> lit ''TBD'' \<longrightarrow>
      time_connection args = time_label args @ [32, 8212, 32] @ c"
    by (simp add: time_connection_def connection_label_def em_dash_sep_def)
  have 3: "connection args = None \<or> connection args = Some [] \<or> connection args = Some (lit ''TBD'') \<longrightarrow>
      time_connection args = time_label args"
    by (auto simp: time_connection_def connection_label_def)
  have 4: "time args = Some t \<and> t \<noteq> [] \<longrightarrow> time_label args = t"
    by (simp add: time_label_def)
  have 5: "time args = None \<or> time args = Some [] \<longrightarrow> time_label args = lit ''TBD''"
    by (auto simp: time_label_def)
  have 6: "t \<noteq> [] \<longrightarrow> time_connection ((parse_args_defaults path)\<lparr>time := Some t\<rparr>) = t"
    by (simp add: time_connection_def connection_label_def time_label_def parse_args_defaults_def)
  show ?thesis by (intro conjI) (rule 1, rule 2, rule 3, rule 4, rule 5, rule 6)
qed

theorem time_connection_line_witness:
  "time_connection ((parse_args_defaults (lit ''s.txt''))
       \<lparr>time := Some (lit ''14:00 SAST''), connection := Some (lit ''Teams'')\<rparr>) =
     lit ''14:00 SAST'' @ [32, 8212, 32] @ lit ''Teams'' \<and>
   time_connection ((parse_args_defaults (lit ''s.txt''))\<lparr>time := Some (lit ''14:00 SAST'')\<rparr>) =
     lit ''14:00 SAST'' \<and>
   time_connection (parse_args_defaults (lit ''s.txt'')) = lit ''TBD''"
proof -
  let ?d = "parse_args_defaults (lit ''s.txt'')"
  let ?a = "?d\<lparr>time := Some (lit ''14:00 SAST''), connection := Some (lit ''Teams'')\<rparr>"
  have n: "lit ''Teams'' \<noteq> []" "lit ''Teams'' \<noteq> lit ''TBD''" "lit ''14:00 SAST'' \<noteq> []"
    by (simp_all add: lit_def)
  have c: "connection ?a = Some (lit ''Teams'')" "time ?a = Some (lit ''14:00 SAST'')"
    by simp_all
  from time_connection_line [of "\<lparr>quick_recap = [], action_items = [], summary_topics = []\<rparr>" ?a "lit ''Teams''" "lit ''14:00 SAST''"] n c
  have 1: "time_connection ?a = lit ''14:00 SAST'' @ [32, 8212, 32] @ lit ''Teams''" by simp
  from time_connection_line [of "\<lparr>quick_recap = [], action_items = [], summary_topics = []\<rparr>" ?d "lit ''Teams''" "lit ''14:00 SAST''" "lit ''s.txt''"] n
  have 2: "time_connection (?d\<lparr>time := Some (lit ''14:00 SAST'')\<rparr>) = lit ''14:00 SAST''" by simp
  have d: "connection ?d = Some (lit ''TBD'')" "time ?d = Some (lit ''TBD'')" "lit ''TBD'' \<noteq> []"
    by (simp_all add: parse_args_defaults_def lit_def)
  from time_connection_line [of "\<lparr>quick_recap = [], action_items = [], summary_topics = []\<rparr>" ?d "lit ''Teams''" "lit ''TBD''"] d
  have 3: "time_connection ?d = lit ''TBD''" by simp
  from 1 2 3 show ?thesis by simp
qed

section \<open>The entry point and its errors\<close>








end
